theory Spec2Isabelle
  imports Main
begin

section \<open>Binary trees and their metrics\<close>

text \<open>
  The Python class \<^verbatim>\<open>TreeNode\<close> has the three slots \<^verbatim>\<open>data\<close>, \<^verbatim>\<open>left\<close> and
  \<^verbatim>\<open>right\<close>; an absent child (and the empty tree) is \<^verbatim>\<open>None\<close>.  A finished tree is
  read as a value of the datatype below: \<open>NoneT\<close> is \<^verbatim>\<open>None\<close>.
\<close>

datatype 'a tree = NoneT | TreeNode (data: 'a) (left: "'a tree") (right: "'a tree")

text \<open>Number of nodes of a tree (the notion the specification counts with).\<close>

fun node_count :: "'a tree \<Rightarrow> nat" where
  "node_count NoneT = 0"
| "node_count (TreeNode d l r) = 1 + node_count l + node_count r"

text \<open>
  \<^verbatim>\<open>max_depth\<close> (the same text in all source files): Python integers are unbounded,
  hence \<open>int\<close>.
\<close>

fun max_depth :: "'a tree \<Rightarrow> int" where
  "max_depth NoneT = 0"
| "max_depth (TreeNode d l r) =
     (let left_depth = max_depth l;
          right_depth = max_depth r
      in 1 + (if left_depth > right_depth then left_depth else right_depth))"

text \<open>\<^verbatim>\<open>is_balanced_tree\<close> of \<^verbatim>\<open>firtst1.py\<close> with its inner \<^verbatim>\<open>check_height\<close>.\<close>

fun check_height :: "'a tree \<Rightarrow> bool \<times> int" where
  "check_height NoneT = (True, 0)"
| "check_height (TreeNode d l r) =
     (let (left_balanced, left_height) = check_height l;
          (right_balanced, right_height) = check_height r;
          height_diff = \<bar>left_height - right_height\<bar>;
          current_balanced = (left_balanced \<and> right_balanced \<and> height_diff \<le> 1)
      in (current_balanced, 1 + max left_height right_height))"

definition is_balanced_tree :: "'a tree \<Rightarrow> bool" where
  "is_balanced_tree root = fst (check_height root)"

text \<open>\<^verbatim>\<open>tree_diameter\<close> of \<^verbatim>\<open>firtst1.py\<close> with its inner \<^verbatim>\<open>diameter_helper\<close>.\<close>

fun diameter_helper :: "'a tree \<Rightarrow> int \<times> int" where
  "diameter_helper NoneT = (0, 0)"
| "diameter_helper (TreeNode d l r) =
     (let (left_diameter, left_height) = diameter_helper l;
          (right_diameter, right_height) = diameter_helper r;
          current_diameter =
            max (max left_diameter right_diameter) (left_height + right_height + 1)
      in (current_diameter, 1 + max left_height right_height))"

definition tree_diameter :: "'a tree \<Rightarrow> int" where
  "tree_diameter root = fst (diameter_helper root)"

section \<open>Level-order construction (\<^verbatim>\<open>Problem.py\<close>)\<close>

text \<open>
  The level-order builders keep a queue of references to nodes whose children are assigned
  later, so the nodes under construction live in an explicit store: a list of cells, the
  address of a cell being its index.  \<^verbatim>\<open>TreeNode(v)\<close> allocates the next free address.
\<close>

record 'a cell =
  cdata :: 'a
  cleft :: "nat option"
  cright :: "nat option"

type_synonym 'a heap = "'a cell list"

definition new_cell :: "'a \<Rightarrow> 'a cell" where
  "new_cell v = \<lparr>cdata = v, cleft = None, cright = None\<rparr>"

definition set_left :: "'a heap \<Rightarrow> nat \<Rightarrow> nat \<Rightarrow> 'a heap" where
  "set_left h a c = h[a := (h ! a)\<lparr>cleft := Some c\<rparr>]"

definition set_right :: "'a heap \<Rightarrow> nat \<Rightarrow> nat \<Rightarrow> 'a heap" where
  "set_right h a c = h[a := (h ! a)\<lparr>cright := Some c\<rparr>]"

text \<open>
  Reading the finished object graph back as a tree.  The first argument bounds the number
  of links followed on a path; the builders call it with the size of the store, which is
  enough because a child is always allocated after its parent: the stores the builders
  produce satisfy \<open>heap_ok\<close>, and on such a store any larger bound reads the same tree
  (lemmas \<open>read_tree_fuel\<close>, \<open>build_from_level_order_fuel\<close> and
  \<open>lot_build_tree_fuel\<close>).
\<close>

fun read_tree :: "nat \<Rightarrow> 'a heap \<Rightarrow> nat option \<Rightarrow> 'a tree" where
  "read_tree n h None = NoneT"
| "read_tree 0 h (Some a) = NoneT"
| "read_tree (Suc n) h (Some a) =
     (if a < length h
      then TreeNode (cdata (h ! a)) (read_tree n h (cleft (h ! a))) (read_tree n h (cright (h ! a)))
      else NoneT)"

definition heap_ok :: "'a heap \<Rightarrow> bool" where
  "heap_ok h =
     (\<forall>a < length h.
        (\<forall>c. cleft (h ! a) = Some c \<longrightarrow> a < c \<and> c < length h) \<and>
        (\<forall>c. cright (h ! a) = Some c \<longrightarrow> a < c \<and> c < length h))"

text \<open>
  The \<^verbatim>\<open>while queue and i < len(level_order)\<close> loop of
  \<^verbatim>\<open>AdvancedTreeConstructor.build_from_level_order\<close>; \<open>queue\<close> holds addresses.
\<close>

function lo_loop :: "'a list \<Rightarrow> 'a \<Rightarrow> nat list \<Rightarrow> nat \<Rightarrow> 'a heap \<Rightarrow> 'a heap" where
  "lo_loop level_order null_marker queue i h =
     (case queue of
        [] \<Rightarrow> h
      | current # q \<Rightarrow>
          if i < length level_order then
            (let (q1, h1) =
                   (if i < length level_order \<and> level_order ! i \<noteq> null_marker
                    then (q @ [length h],
                          set_left (h @ [new_cell (level_order ! i)]) current (length h))
                    else (q, h));
                 i1 = i + 1;
                 (q2, h2) =
                   (if i1 < length level_order \<and> level_order ! i1 \<noteq> null_marker
                    then (q1 @ [length h1],
                          set_right (h1 @ [new_cell (level_order ! i1)]) current (length h1))
                    else (q1, h1))
             in lo_loop level_order null_marker q2 (i1 + 1) h2)
          else h)"
  by pat_completeness auto
termination
  by (relation "measure (\<lambda>(level_order, null_marker, queue, i, h). length level_order - i)")
     (auto split: if_splits)

declare lo_loop.simps [simp del]

definition build_from_level_order :: "'a list \<Rightarrow> 'a \<Rightarrow> 'a tree" where
  "build_from_level_order level_order null_marker =
     (if level_order = [] \<or> level_order ! 0 = null_marker then NoneT
      else (let h = lo_loop level_order null_marker [0] 1 [new_cell (level_order ! 0)]
            in read_tree (length h) h (Some 0)))"

section \<open>Pre-order and post-order construction (\<^verbatim>\<open>Problem.py\<close>)\<close>

text \<open>
  \<^verbatim>\<open>build_recursive\<close> of \<^verbatim>\<open>build_from_pre_order\<close> shares the one-element list
  \<^verbatim>\<open>index\<close> between all calls; here the cursor is passed in and returned.  The second
  recursive call starts where the first one stopped, so termination rests on the fact that
  a call never moves the cursor backwards.
\<close>

function pre_build_recursive :: "'a list \<Rightarrow> nat \<Rightarrow> 'a tree \<times> nat" where
  "pre_build_recursive pre_order index =
     (if index \<ge> length pre_order then (NoneT, index)
      else (case pre_build_recursive pre_order (index + 1) of
              (l, index1) \<Rightarrow>
                (case pre_build_recursive pre_order index1 of
                   (r, index2) \<Rightarrow> (TreeNode (pre_order ! index) l r, index2))))"
  by pat_completeness auto

lemma pre_build_recursive_cursor:
  "pre_build_recursive_dom (pre_order, index) \<Longrightarrow>
     index \<le> snd (pre_build_recursive pre_order index)"
proof (induction pre_order index rule: pre_build_recursive.pinduct)
  case (1 pre_order index)
  show ?case
  proof (cases "index \<ge> length pre_order")
    case True
    with 1(1) show ?thesis by (simp add: pre_build_recursive.psimps)
  next
    case False
    obtain l i1 where a: "pre_build_recursive pre_order (index + 1) = (l, i1)"
      by (cases "pre_build_recursive pre_order (index + 1)")
    obtain r i2 where b: "pre_build_recursive pre_order i1 = (r, i2)"
      by (cases "pre_build_recursive pre_order i1")
    from 1(2)[OF False] a have "index + 1 \<le> i1" by simp
    moreover from 1(3)[OF False a[symmetric]] b have "i1 \<le> i2" by simp
    ultimately show ?thesis
      using 1(1) False a b by (simp add: pre_build_recursive.psimps)
  qed
qed

termination pre_build_recursive
  apply (relation "measure (\<lambda>(pre_order, index). length pre_order - index)")
    apply simp
   apply simp
  subgoal for pre_order index l index1
    using pre_build_recursive_cursor[of pre_order "index + 1"]
    by (cases "pre_build_recursive pre_order (Suc index)") auto
  done

declare pre_build_recursive.simps [simp del]

definition build_from_pre_order :: "'a list \<Rightarrow> 'a tree" where
  "build_from_pre_order pre_order =
     (if pre_order \<noteq> [] then fst (pre_build_recursive pre_order 0) else NoneT)"

text \<open>
  \<^verbatim>\<open>build_recursive\<close> of \<^verbatim>\<open>build_from_post_order\<close>: the cursor is a Python integer that
  starts at \<^verbatim>\<open>len(post_order) - 1\<close> and only decreases, so the read
  \<^verbatim>\<open>post_order[index[0]]\<close> is always in range.
\<close>

function post_build_recursive :: "'a list \<Rightarrow> int \<Rightarrow> 'a tree \<times> int" where
  "post_build_recursive post_order index =
     (if index < 0 then (NoneT, index)
      else (case post_build_recursive post_order (index - 1) of
              (r, index1) \<Rightarrow>
                (case post_build_recursive post_order index1 of
                   (l, index2) \<Rightarrow> (TreeNode (post_order ! nat index) l r, index2))))"
  by pat_completeness auto

lemma post_build_recursive_cursor:
  "post_build_recursive_dom (post_order, index) \<Longrightarrow>
     snd (post_build_recursive post_order index) \<le> index"
proof (induction post_order index rule: post_build_recursive.pinduct)
  case (1 post_order index)
  show ?case
  proof (cases "index < 0")
    case True
    with 1(1) show ?thesis by (simp add: post_build_recursive.psimps)
  next
    case False
    obtain r i1 where a: "post_build_recursive post_order (index - 1) = (r, i1)"
      by (cases "post_build_recursive post_order (index - 1)")
    obtain l i2 where b: "post_build_recursive post_order i1 = (l, i2)"
      by (cases "post_build_recursive post_order i1")
    from 1(2)[OF False] a have "i1 \<le> index - 1" by simp
    moreover from 1(3)[OF False a[symmetric]] b have "i2 \<le> i1" by simp
    ultimately show ?thesis
      using 1(1) False a b by (simp add: post_build_recursive.psimps)
  qed
qed

termination post_build_recursive
  apply (relation "measure (\<lambda>(post_order, index). nat (index + 1))")
    apply simp
   apply simp
  subgoal for post_order index r index1
    using post_build_recursive_cursor[of post_order "index - 1"]
    by (cases "post_build_recursive post_order (index - 1)") auto
  done

declare post_build_recursive.simps [simp del]

definition build_from_post_order :: "'a list \<Rightarrow> 'a tree" where
  "build_from_post_order post_order =
     (let index = int (length post_order) - 1
      in if post_order \<noteq> [] then fst (post_build_recursive post_order index) else NoneT)"

section \<open>Parenthesized text (\<^verbatim>\<open>Problem.py\<close>)\<close>

text \<open>
  Exceptions are values: the class of the exception with its message.  The messages of
  the exceptions that Python itself raises are the ones CPython prints.
\<close>

datatype error =
    ValueError string
  | NotImplementedError string
  | AttributeError string
  | TypeError string

fun message :: "error \<Rightarrow> string" where
  "message (ValueError m) = m"
| "message (NotImplementedError m) = m"
| "message (AttributeError m) = m"
| "message (TypeError m) = m"

text \<open>
  A character is a code point below 256.  On those, \<^verbatim>\<open>str.isdigit\<close> is true of the ten
  ASCII digits and of the superscripts U+00B2, U+00B3 and U+00B9, while \<^verbatim>\<open>int\<close> reads
  ASCII digits only (\<open>isdecimal\<close>).
\<close>

definition isdigit :: "char \<Rightarrow> bool" where
  "isdigit c = (c \<in> set ''0123456789'' \<or> c \<in> {CHR 0xB2, CHR 0xB3, CHR 0xB9})"

definition isdecimal :: "char \<Rightarrow> bool" where
  "isdecimal c = (c \<in> set ''0123456789'')"

definition digit_value :: "char \<Rightarrow> int" where
  "digit_value c = int (of_char c) - 48"

text \<open>
  The builtin \<^verbatim>\<open>int\<close> of CPython 3.11 on the texts the parser hands to it, which consist
  of characters accepted by \<open>isdigit\<close> and of minus signs (lemma \<open>value_token_chars\<close>).
  After an optional minus sign it reads the leading run of decimal digits.  An empty run is
  an invalid literal; a run of more than \<open>int_max_str_digits\<close> digits (the interpreter's
  default, which the repository does not change) exceeds the limit for the conversion; a run
  followed by anything else is an invalid literal.  The message of an invalid literal shows
  the first 200 characters of the \<^verbatim>\<open>repr\<close> of the text.
\<close>

definition int_max_str_digits :: nat where
  "int_max_str_digits = 4300"

function show_nat :: "nat \<Rightarrow> string" where
  "show_nat n =
     (if n < 10 then [char_of (48 + n)] else show_nat (n div 10) @ [char_of (48 + n mod 10)])"
  by pat_completeness auto
termination
  by (relation "measure (\<lambda>n. n)") auto

declare show_nat.simps [simp del]

definition invalid_literal :: "string \<Rightarrow> error" where
  "invalid_literal tok =
     ValueError (''invalid literal for int() with base 10: ''
                   @ take 200 ([CHR 0x27] @ tok @ [CHR 0x27]))"

definition exceeds_limit :: "nat \<Rightarrow> error" where
  "exceeds_limit n =
     ValueError (''Exceeds the limit ('' @ show_nat int_max_str_digits
                   @ '' digits) for integer string conversion: value has '' @ show_nat n
                   @ '' digits; use sys.set_int_max_str_digits() to increase the limit'')"

definition unsigned :: "string \<Rightarrow> string" where
  "unsigned tok = (case tok of [] \<Rightarrow> [] | c # cs \<Rightarrow> if c = CHR ''-'' then cs else tok)"

definition digit_run :: "string \<Rightarrow> string" where
  "digit_run tok = takeWhile isdecimal (unsigned tok)"

definition py_int :: "string \<Rightarrow> error + int" where
  "py_int tok =
     (let negative = (tok \<noteq> [] \<and> hd tok = CHR ''-'');
          run = digit_run tok
      in if run = [] then Inl (invalid_literal tok)
         else if int_max_str_digits < length run then Inl (exceeds_limit (length run))
         else if run \<noteq> unsigned tok then Inl (invalid_literal tok)
         else (let n = foldl (\<lambda>acc c. 10 * acc + digit_value c) 0 run
               in Inr (if negative then - n else n)))"

text \<open>
  An integer literal, as the specification has it: an optional minus sign followed by one
  or more decimal digits.
\<close>

definition int_literal :: "string \<Rightarrow> bool" where
  "int_literal tok = (unsigned tok \<noteq> [] \<and> list_all isdecimal (unsigned tok))"

text \<open>
  The scanning loop of \<open>parse_tree\<close>, and \<open>slice s start stop\<close> for \<^verbatim>\<open>s[start:stop]\<close>
  with \<open>0 \<le> start\<close>.
\<close>

function scan_value :: "string \<Rightarrow> nat \<Rightarrow> nat" where
  "scan_value s i =
     (if i < length s \<and> (isdigit (s ! i) \<or> s ! i = CHR ''-'') then scan_value s (i + 1) else i)"
  by pat_completeness auto
termination
  by (relation "measure (\<lambda>(s, i). length s - i)") auto

declare scan_value.simps [simp del]

lemma scan_value_ge: "i \<le> scan_value s i"
proof (induction s i rule: scan_value.induct)
  case (1 s i)
  show ?case
  proof (cases "i < length s \<and> (isdigit (s ! i) \<or> s ! i = CHR ''-'')")
    case True
    then have "scan_value s i = scan_value s (i + 1)"
      by (subst scan_value.simps) auto
    with 1[OF True] show ?thesis by simp
  next
    case False
    then have "scan_value s i = i"
      by (subst scan_value.simps) auto
    then show ?thesis by simp
  qed
qed

definition slice :: "'a list \<Rightarrow> nat \<Rightarrow> nat \<Rightarrow> 'a list" where
  "slice s start stop = take (stop - start) (drop start s)"

function parse_tree :: "string \<Rightarrow> nat \<Rightarrow> error + (int tree \<times> nat)" where
  "parse_tree s i =
     (let start = i;
          i1 = scan_value s i
      in case py_int (slice s start i1) of
           Inl e \<Rightarrow> Inl e
         | Inr v \<Rightarrow>
             (case (if i1 < length s \<and> s ! i1 = CHR ''(''
                    then (case parse_tree s (i1 + 1) of
                            Inl e \<Rightarrow> Inl e
                          | Inr (l, j) \<Rightarrow> Inr (l, j + 1))
                    else Inr (NoneT, i1)) of
                Inl e \<Rightarrow> Inl e
              | Inr (l, i2) \<Rightarrow>
                  (case (if i2 < length s \<and> s ! i2 = CHR ''(''
                         then (case parse_tree s (i2 + 1) of
                                 Inl e \<Rightarrow> Inl e
                               | Inr (r, j) \<Rightarrow> Inr (r, j + 1))
                         else Inr (NoneT, i2)) of
                     Inl e \<Rightarrow> Inl e
                   | Inr (r, i3) \<Rightarrow> Inr (TreeNode v l r, i3))))"
  by pat_completeness auto

lemma parse_tree_cursor:
  "parse_tree_dom (s, i) \<Longrightarrow> parse_tree s i = Inr (t, j) \<Longrightarrow> i \<le> j"
proof (induction s i arbitrary: t j rule: parse_tree.pinduct)
  case (1 s i)
  define i1 where "i1 = scan_value s i"
  define sub where "sub = (\<lambda>k. if k < length s \<and> s ! k = CHR ''(''
            then (case parse_tree s (k + 1) of Inl e \<Rightarrow> Inl e | Inr (l, j) \<Rightarrow> Inr (l, j + 1))
            else Inr (NoneT, k))"
  have i_i1: "i \<le> i1" by (simp add: i1_def scan_value_ge)
  have eq: "parse_tree s i =
      (case py_int (slice s i i1) of Inl e \<Rightarrow> Inl e
       | Inr v \<Rightarrow> (case sub i1 of Inl e \<Rightarrow> Inl e
           | Inr (l, i2) \<Rightarrow> (case sub i2 of Inl e \<Rightarrow> Inl e
               | Inr (r, i3) \<Rightarrow> Inr (TreeNode v l r, i3))))"
    unfolding i1_def sub_def Let_def parse_tree.psimps[OF 1(1), unfolded Let_def] ..
  from eq 1(4) obtain v where v: "py_int (slice s i i1) = Inr v"
    by (cases "py_int (slice s i i1)") simp_all
  from eq 1(4) v obtain l i2 where A: "sub i1 = Inr (l, i2)"
    by (cases "sub i1") auto
  from eq 1(4) v A obtain r where B: "sub i2 = Inr (r, j)"
    by (cases "sub i2") auto
  have i1_i2: "i1 \<le> i2"
  proof (cases "i1 < length s \<and> s ! i1 = CHR ''(''")
    case True
    with A obtain j' where "parse_tree s (i1 + 1) = Inr (l, j')" "i2 = j' + 1"
      unfolding sub_def by (cases "parse_tree s (i1 + 1)") auto
    with 1(2)[OF refl i1_def v True] show ?thesis by simp
  next
    case False
    with A show ?thesis by (simp add: sub_def)
  qed
  have "i2 \<le> j"
  proof (cases "i2 < length s \<and> s ! i2 = CHR ''(''")
    case True
    with B obtain j' where "parse_tree s (i2 + 1) = Inr (r, j')" "j = j' + 1"
      unfolding sub_def by (cases "parse_tree s (i2 + 1)") auto
    with 1(3)[OF refl i1_def v A[unfolded sub_def] refl True] show ?thesis by simp
  next
    case False
    with B show ?thesis by (simp add: sub_def)
  qed
  with i_i1 i1_i2 show ?case by simp
qed

termination parse_tree
  apply (relation "measure (\<lambda>(s, i). length s - i)")
    apply simp
  subgoal for s i start i1 v
    using scan_value_ge[of i s] by auto
  subgoal for s i start i1 v lres l i2
    using scan_value_ge[of i s]
    by (auto split: if_splits sum.splits prod.splits dest!: parse_tree_cursor)
  done

definition build_from_parenthesis :: "string \<Rightarrow> error + int tree" where
  "build_from_parenthesis s =
     (if s \<noteq> [] then (case parse_tree s 0 of Inl e \<Rightarrow> Inl e | Inr (t, i) \<Rightarrow> Inr t)
      else Inr NoneT)"


declare parse_tree.simps [simp del]

text \<open>
  For stating where the parser fails: \<open>value_token s i\<close> is the text \<^verbatim>\<open>s[start:i]\<close> that
  \<open>parse_tree\<close> hands to \<^verbatim>\<open>int\<close> when it is called with the cursor at \<open>i\<close>;
  \<open>after_subtree s k\<close> is one of its two blocks \<^verbatim>\<open>if i < len(s) and s[i] == '('\<close> run
  with the cursor at \<open>k\<close>: the subtree, if any, and the cursor after the skipped character.
\<close>

definition value_token :: "string \<Rightarrow> nat \<Rightarrow> string" where
  "value_token s i = slice s i (scan_value s i)"

definition after_subtree :: "string \<Rightarrow> nat \<Rightarrow> error + (int tree \<times> nat)" where
  "after_subtree s k =
     (if k < length s \<and> s ! k = CHR ''(''
      then (case parse_tree s (k + 1) of Inl e \<Rightarrow> Inl e | Inr (t, j) \<Rightarrow> Inr (t, j + 1))
      else Inr (NoneT, k))"


section \<open>Format detection and dispatch\<close>

text \<open>
  What a caller passes as \<^verbatim>\<open>input_data\<close>: a list of integers, a string, or \<^verbatim>\<open>None\<close>.
  A builder that indexes its argument takes a string as the sequence of its one-character
  strings, so the values stored in a tree are integers or strings.
\<close>

datatype input_data = ListIn "int list" | StrIn string | NoneIn

datatype pyval = IntV int | StrV string | NoneV

text \<open>\<^verbatim>\<open>detect_input_format\<close>: the result \<open>None\<close> is Python's \<^verbatim>\<open>None\<close>.\<close>

fun detect_input_format :: "input_data \<Rightarrow> string option" where
  "detect_input_format NoneIn = None"
| "detect_input_format (ListIn xs) =
     (if xs = [] then None
      else if (- 1) \<in> set xs \<or> (- 999) \<in> set xs then Some ''level_order''
      else Some ''pre_order'')"
| "detect_input_format (StrIn s) =
     (if s = [] then None
      else if set s \<inter> set ''()'' \<noteq> {} then Some ''parenthesis''
      else Some ''pre_order'')"

text \<open>
  The builders as the dispatcher calls them, with one argument of any of the three input
  kinds (\<^verbatim>\<open>null_marker\<close> takes its default \<^verbatim>\<open>-1\<close>).  On \<^verbatim>\<open>None\<close> the guards
  \<^verbatim>\<open>not level_order\<close>, \<^verbatim>\<open>if s\<close> and \<^verbatim>\<open>if pre_order\<close> return \<^verbatim>\<open>None\<close>, while
  \<^verbatim>\<open>build_from_post_order\<close> evaluates \<^verbatim>\<open>len(post_order)\<close> first.  On a non-empty list
  \<^verbatim>\<open>build_from_parenthesis\<close> calls \<^verbatim>\<open>isdigit\<close> on an integer.
\<close>

definition chars :: "string \<Rightarrow> pyval list" where
  "chars s = map (\<lambda>c. StrV [c]) s"

fun call_level_order :: "input_data \<Rightarrow> error + pyval tree" where
  "call_level_order NoneIn = Inr NoneT"
| "call_level_order (ListIn xs) = Inr (build_from_level_order (map IntV xs) (IntV (- 1)))"
| "call_level_order (StrIn s) = Inr (build_from_level_order (chars s) (IntV (- 1)))"

fun call_pre_order :: "input_data \<Rightarrow> error + pyval tree" where
  "call_pre_order NoneIn = Inr NoneT"
| "call_pre_order (ListIn xs) = Inr (build_from_pre_order (map IntV xs))"
| "call_pre_order (StrIn s) = Inr (build_from_pre_order (chars s))"

fun call_post_order :: "input_data \<Rightarrow> error + pyval tree" where
  "call_post_order NoneIn =
     Inl (TypeError (''object of type '' @ [CHR 0x27] @ ''NoneType'' @ [CHR 0x27] @ '' has no len()''))"
| "call_post_order (ListIn xs) = Inr (build_from_post_order (map IntV xs))"
| "call_post_order (StrIn s) = Inr (build_from_post_order (chars s))"

fun call_parenthesis :: "input_data \<Rightarrow> error + pyval tree" where
  "call_parenthesis NoneIn = Inr NoneT"
| "call_parenthesis (ListIn xs) =
     (if xs = [] then Inr NoneT
      else Inl (AttributeError ([CHR 0x27] @ ''int'' @ [CHR 0x27] @ '' object has no attribute ''
                                  @ [CHR 0x27] @ ''isdigit'' @ [CHR 0x27])))"
| "call_parenthesis (StrIn s) =
     (case build_from_parenthesis s of Inl e \<Rightarrow> Inl e | Inr t \<Rightarrow> Inr (map_tree IntV t))"

text \<open>\<^verbatim>\<open>build_from_in_order\<close> exists in \<^verbatim>\<open>problemvar.py\<close> only.\<close>

definition build_from_in_order :: "input_data \<Rightarrow> error + pyval tree" where
  "build_from_in_order in_order =
     Inl (NotImplementedError ''In-order reconstruction requires additional traversal info'')"

text \<open>
  \<^verbatim>\<open>AdvancedTreeConstructor.build_tree\<close> of \<^verbatim>\<open>Problem.py\<close>.  The method is a string or
  \<^verbatim>\<open>None\<close>; the table is the dictionary \<^verbatim>\<open>construction_methods\<close>, and
  \<^verbatim>\<open>f"...{method}"\<close> prints \<^verbatim>\<open>None\<close> as \<^verbatim>\<open>None\<close>.
\<close>

definition construction_methods :: "(string \<times> (input_data \<Rightarrow> error + pyval tree)) list" where
  "construction_methods =
     [(''level_order'', call_level_order),
      (''pre_order'', call_pre_order),
      (''parenthesis'', call_parenthesis),
      (''post_order'', call_post_order)]"

definition format_method :: "string option \<Rightarrow> string" where
  "format_method method = (case method of None \<Rightarrow> ''None'' | Some name \<Rightarrow> name)"

definition get_method ::
  "(string \<times> (input_data \<Rightarrow> error + pyval tree)) list \<Rightarrow> string option
     \<Rightarrow> (input_data \<Rightarrow> error + pyval tree) option" where
  "get_method table method = (case method of None \<Rightarrow> None | Some name \<Rightarrow> map_of table name)"

definition build_tree :: "input_data \<Rightarrow> string option \<Rightarrow> error + pyval tree" where
  "build_tree input_data method0 =
     (let method = (if method0 = None then detect_input_format input_data else method0)
      in case get_method construction_methods method of
           Some constructor \<Rightarrow> constructor input_data
         | None \<Rightarrow> Inl (ValueError (''Unsupported construction method: '' @ format_method method)))"

text \<open>
  \<^verbatim>\<open>AdvancedTreeConstructor.build_tree\<close> of \<^verbatim>\<open>problemvar.py\<close> (and of
  \<^verbatim>\<open>tempCodeRunnerFile.py\<close>): the table has the entry \<^verbatim>\<open>in_order\<close>, and the body is
  wrapped in \<^verbatim>\<open>try\<close> \<^verbatim>\<open>except Exception\<close>, which prints the message and returns
  \<^verbatim>\<open>None\<close>.  The result is the returned tree together with the lines printed.
\<close>

definition construction_methods_var ::
  "(string \<times> (input_data \<Rightarrow> error + pyval tree)) list" where
  "construction_methods_var =
     [(''level_order'', call_level_order),
      (''pre_order'', call_pre_order),
      (''parenthesis'', call_parenthesis),
      (''in_order'', build_from_in_order),
      (''post_order'', call_post_order)]"

definition build_tree_var :: "input_data \<Rightarrow> string option \<Rightarrow> pyval tree \<times> string list" where
  "build_tree_var input_data method0 =
     (let method = (if method0 = None then detect_input_format input_data else method0);
          attempt =
            (case get_method construction_methods_var method of
               Some constructor \<Rightarrow> constructor input_data
             | None \<Rightarrow> Inl (ValueError (''Unsupported construction method: '' @ format_method method)))
      in case attempt of
           Inr t \<Rightarrow> (t, [])
         | Inl e \<Rightarrow> (NoneT, [''Tree Construction Error: '' @ message e]))"

section \<open>Level-order construction (\<^verbatim>\<open>firtst1.py\<close>)\<close>

text \<open>
  \<^verbatim>\<open>LevelOrderTreeConstructor.build_tree\<close> tests membership in a set of null markers and
  removes leading null markers from the list it was given with \<^verbatim>\<open>pop(0)\<close>, so the
  caller's list is part of the result.
\<close>

definition default_null_markers :: "pyval set" where
  "default_null_markers = {IntV (- 1), IntV (- 999), NoneV}"

fun pop_leading :: "'a set \<Rightarrow> 'a list \<Rightarrow> 'a list" where
  "pop_leading null_markers [] = []"
| "pop_leading null_markers (x # xs) =
     (if x \<in> null_markers then pop_leading null_markers xs else x # xs)"

function lot_loop :: "'a list \<Rightarrow> 'a set \<Rightarrow> nat list \<Rightarrow> nat \<Rightarrow> 'a heap \<Rightarrow> 'a heap" where
  "lot_loop level_order null_markers queue i h =
     (case queue of
        [] \<Rightarrow> h
      | current # q \<Rightarrow>
          if i < length level_order then
            (let (q1, h1) =
                   (if i < length level_order \<and> level_order ! i \<notin> null_markers
                    then (q @ [length h],
                          set_left (h @ [new_cell (level_order ! i)]) current (length h))
                    else (q, h));
                 i1 = i + 1;
                 (q2, h2) =
                   (if i1 < length level_order \<and> level_order ! i1 \<notin> null_markers
                    then (q1 @ [length h1],
                          set_right (h1 @ [new_cell (level_order ! i1)]) current (length h1))
                    else (q1, h1))
             in lot_loop level_order null_markers q2 (i1 + 1) h2)
          else h)"
  by pat_completeness auto
termination
  by (relation "measure (\<lambda>(level_order, null_markers, queue, i, h). length level_order - i)")
     (auto split: if_splits)

declare lot_loop.simps [simp del]

definition lot_build_tree :: "pyval list \<Rightarrow> pyval set option \<Rightarrow> pyval tree \<times> pyval list" where
  "lot_build_tree level_order null_markers0 =
     (let null_markers = (case null_markers0 of None \<Rightarrow> default_null_markers | Some m \<Rightarrow> m)
      in if level_order = [] \<or> list_all (\<lambda>x. x \<in> null_markers) level_order
         then (NoneT, level_order)
         else (let level_order1 = pop_leading null_markers level_order;
                   h = lot_loop level_order1 null_markers [0] 1 [new_cell (level_order1 ! 0)]
               in (read_tree (length h) h (Some 0), level_order1)))"

section \<open>Degenerate chains\<close>

text \<open>
  The shapes the specification of the pre-order and post-order builders is stated with:
  \<open>left_chain xs\<close> holds the values of \<open>xs\<close> from the root downward, every node having
  only a left child; \<open>right_chain\<close> is its mirror image.
\<close>

fun left_chain :: "'a list \<Rightarrow> 'a tree" where
  "left_chain [] = NoneT"
| "left_chain (x # xs) = TreeNode x (left_chain xs) NoneT"

fun right_chain :: "'a list \<Rightarrow> 'a tree" where
  "right_chain [] = NoneT"
| "right_chain (x # xs) = TreeNode x NoneT (right_chain xs)"

section \<open>The store of the level-order builders\<close>

text \<open>
  Every link in the store points from a cell to a cell allocated later, so the object graph
  is a tree and the bound of \<open>read_tree\<close> is never reached.
\<close>

lemma heap_ok_left: "heap_ok h \<Longrightarrow> a < length h \<Longrightarrow> cleft (h ! a) = Some c \<Longrightarrow> a < c \<and> c < length h"
  unfolding heap_ok_def by blast

lemma heap_ok_right: "heap_ok h \<Longrightarrow> a < length h \<Longrightarrow> cright (h ! a) = Some c \<Longrightarrow> a < c \<and> c < length h"
  unfolding heap_ok_def by blast

lemma read_tree_fuel:
  "heap_ok h \<Longrightarrow> a < length h \<Longrightarrow> length h - a \<le> n \<Longrightarrow> length h - a \<le> m \<Longrightarrow>
     read_tree n h (Some a) = read_tree m h (Some a)"
proof (induction n arbitrary: m a)
  case 0
  then show ?case by simp
next
  case (Suc n)
  from Suc.prems obtain m' where m: "m = Suc m'" by (cases m) auto
  have child: "read_tree n h p = read_tree m' h p"
    if "p = cleft (h ! a) \<or> p = cright (h ! a)" for p
  proof (cases p)
    case None
    then show ?thesis by simp
  next
    case (Some c)
    with that have "cleft (h ! a) = Some c \<or> cright (h ! a) = Some c" by auto
    with Suc.prems(1,2) have ac: "a < c \<and> c < length h"
      using heap_ok_left[of h a c] heap_ok_right[of h a c] by blast
    with Suc.prems m have "length h - c \<le> n" "length h - c \<le> m'" by linarith+
    with Suc.IH[of c m'] Suc.prems(1) ac Some show ?thesis by blast
  qed
  have l: "read_tree n h (cleft (h ! a)) = read_tree m' h (cleft (h ! a))"
    by (rule child) simp
  have r: "read_tree n h (cright (h ! a)) = read_tree m' h (cright (h ! a))"
    by (rule child) simp
  from Suc.prems(2) show ?case unfolding m by (simp only: read_tree.simps l r)
qed
lemma heap_okI:
  assumes "\<And>a c. a < length h \<Longrightarrow> cleft (h ! a) = Some c \<Longrightarrow> a < c \<and> c < length h"
    and "\<And>a c. a < length h \<Longrightarrow> cright (h ! a) = Some c \<Longrightarrow> a < c \<and> c < length h"
  shows "heap_ok h"
  unfolding heap_ok_def using assms by blast

lemma heap_ok_new: "heap_ok [new_cell v]"
  by (rule heap_okI) (simp_all add: new_cell_def)

lemma nth_set_left:
  "current < length h \<Longrightarrow> a < length h \<Longrightarrow>
     set_left (h @ [new_cell v]) current c ! a
       = (if a = current then (h ! a)\<lparr>cleft := Some c\<rparr> else h ! a)"
  by (simp add: set_left_def nth_append nth_list_update)

lemma nth_set_left_new:
  "current < length h \<Longrightarrow> set_left (h @ [new_cell v]) current c ! length h = new_cell v"
  by (simp add: set_left_def nth_list_update)

lemma nth_set_right:
  "current < length h \<Longrightarrow> a < length h \<Longrightarrow>
     set_right (h @ [new_cell v]) current c ! a
       = (if a = current then (h ! a)\<lparr>cright := Some c\<rparr> else h ! a)"
  by (simp add: set_right_def nth_append nth_list_update)

lemma nth_set_right_new:
  "current < length h \<Longrightarrow> set_right (h @ [new_cell v]) current c ! length h = new_cell v"
  by (simp add: set_right_def nth_list_update)

lemma length_set_left [simp]: "length (set_left h a c) = length h"
  by (simp add: set_left_def)

lemma length_set_right [simp]: "length (set_right h a c) = length h"
  by (simp add: set_right_def)

lemma heap_ok_set_left:
  assumes ok: "heap_ok h" and cur: "current < length h"
  shows "heap_ok (set_left (h @ [new_cell v]) current (length h))"
proof (rule heap_okI)
  fix a c
  assume a: "a < length (set_left (h @ [new_cell v]) current (length h))"
    and c: "cleft (set_left (h @ [new_cell v]) current (length h) ! a) = Some c"
  show "a < c \<and> c < length (set_left (h @ [new_cell v]) current (length h))"
  proof (cases "a = length h")
    case True
    with cur have "set_left (h @ [new_cell v]) current (length h) ! a = new_cell v"
      by (simp add: nth_set_left_new)
    with c show ?thesis by (simp add: new_cell_def)
  next
    case False
    with a have al: "a < length h" by simp
    show ?thesis
    proof (cases "a = current")
      case True
      with c cur al have "c = length h" by (simp add: nth_set_left)
      with al show ?thesis by simp
    next
      case False
      with c cur al have "cleft (h ! a) = Some c" by (simp add: nth_set_left)
      with heap_ok_left[OF ok al] show ?thesis by simp
    qed
  qed
next
  fix a c
  assume a: "a < length (set_left (h @ [new_cell v]) current (length h))"
    and c: "cright (set_left (h @ [new_cell v]) current (length h) ! a) = Some c"
  show "a < c \<and> c < length (set_left (h @ [new_cell v]) current (length h))"
  proof (cases "a = length h")
    case True
    with cur have "set_left (h @ [new_cell v]) current (length h) ! a = new_cell v"
      by (simp add: nth_set_left_new)
    with c show ?thesis by (simp add: new_cell_def)
  next
    case False
    with a have al: "a < length h" by simp
    from c cur al have "cright (h ! a) = Some c"
      by (cases "a = current") (simp_all add: nth_set_left)
    with heap_ok_right[OF ok al] show ?thesis by simp
  qed
qed

lemma heap_ok_set_right:
  assumes ok: "heap_ok h" and cur: "current < length h"
  shows "heap_ok (set_right (h @ [new_cell v]) current (length h))"
proof (rule heap_okI)
  fix a c
  assume a: "a < length (set_right (h @ [new_cell v]) current (length h))"
    and c: "cright (set_right (h @ [new_cell v]) current (length h) ! a) = Some c"
  show "a < c \<and> c < length (set_right (h @ [new_cell v]) current (length h))"
  proof (cases "a = length h")
    case True
    with cur have "set_right (h @ [new_cell v]) current (length h) ! a = new_cell v"
      by (simp add: nth_set_right_new)
    with c show ?thesis by (simp add: new_cell_def)
  next
    case False
    with a have al: "a < length h" by simp
    show ?thesis
    proof (cases "a = current")
      case True
      with c cur al have "c = length h" by (simp add: nth_set_right)
      with al show ?thesis by simp
    next
      case False
      with c cur al have "cright (h ! a) = Some c" by (simp add: nth_set_right)
      with heap_ok_right[OF ok al] show ?thesis by simp
    qed
  qed
next
  fix a c
  assume a: "a < length (set_right (h @ [new_cell v]) current (length h))"
    and c: "cleft (set_right (h @ [new_cell v]) current (length h) ! a) = Some c"
  show "a < c \<and> c < length (set_right (h @ [new_cell v]) current (length h))"
  proof (cases "a = length h")
    case True
    with cur have "set_right (h @ [new_cell v]) current (length h) ! a = new_cell v"
      by (simp add: nth_set_right_new)
    with c show ?thesis by (simp add: new_cell_def)
  next
    case False
    with a have al: "a < length h" by simp
    from c cur al have "cleft (h ! a) = Some c"
      by (cases "a = current") (simp_all add: nth_set_right)
    with heap_ok_left[OF ok al] show ?thesis by simp
  qed
qed

lemma lo_loop_heap_ok:
  "heap_ok h \<Longrightarrow> \<forall>a \<in> set q. a < length h \<Longrightarrow>
     heap_ok (lo_loop xs nm q i h) \<and> length h \<le> length (lo_loop xs nm q i h)"
proof (induction "length xs - i" arbitrary: i q h rule: less_induct)
  case less
  show ?case
  proof (cases q)
    case Nil
    with less.prems show ?thesis by (subst (1 2) lo_loop.simps) simp
  next
    case (Cons current q')
    show ?thesis
    proof (cases "i < length xs")
      case False
      with Cons less.prems show ?thesis by (subst (1 2) lo_loop.simps) simp
    next
      case True
      from less.prems Cons have cur: "current < length h" and q': "\<forall>a \<in> set q'. a < length h"
        by simp_all
      define q1 where "q1 = (if xs ! i \<noteq> nm then q' @ [length h] else q')"
      define h1 where "h1 = (if xs ! i \<noteq> nm then set_left (h @ [new_cell (xs ! i)]) current (length h) else h)"
      define q2 where
        "q2 = (if Suc i < length xs \<and> xs ! Suc i \<noteq> nm then q1 @ [length h1] else q1)"
      define h2 where "h2 = (if Suc i < length xs \<and> xs ! Suc i \<noteq> nm
                   then set_right (h1 @ [new_cell (xs ! Suc i)]) current (length h1) else h1)"
      have ok1: "heap_ok h1" and len1: "length h \<le> length h1"
        and qs1: "\<forall>a \<in> set q1. a < length h1"
        using less.prems(1) cur q' by (auto simp: q1_def h1_def heap_ok_set_left)
      from cur len1 have cur1: "current < length h1" by simp
      have ok2: "heap_ok h2" and len2: "length h1 \<le> length h2"
        and qs2: "\<forall>a \<in> set q2. a < length h2"
        using ok1 cur1 qs1 by (auto simp: q2_def h2_def heap_ok_set_right)
      have step: "lo_loop xs nm q i h = lo_loop xs nm q2 (Suc (Suc i)) h2"
        using True Cons by (subst lo_loop.simps) (simp add: q1_def h1_def q2_def h2_def Let_def)
      from True have "length xs - Suc (Suc i) < length xs - i" by simp
      from less.hyps[OF this ok2 qs2] len1 len2 show ?thesis
        unfolding step by simp
    qed
  qed
qed

lemma build_from_level_order_fuel:
  assumes "level_order \<noteq> []" and "level_order ! 0 \<noteq> null_marker"
    and "h = lo_loop level_order null_marker [0] 1 [new_cell (level_order ! 0)]"
    and "length h \<le> n"
  shows "read_tree n h (Some 0) = build_from_level_order level_order null_marker"
proof -
  have "heap_ok h \<and> length [new_cell (level_order ! 0)] \<le> length h"
    unfolding assms(3) by (rule lo_loop_heap_ok) (simp_all add: heap_ok_new)
  then have "heap_ok h" "0 < length h" by (simp_all add: Suc_le_eq)
  with assms(4) have "read_tree n h (Some 0) = read_tree (length h) h (Some 0)"
    by (intro read_tree_fuel) simp_all
  with assms(1,2,3) show ?thesis by (simp add: build_from_level_order_def Let_def)
qed

lemma lot_loop_heap_ok:
  "heap_ok h \<Longrightarrow> \<forall>a \<in> set q. a < length h \<Longrightarrow>
     heap_ok (lot_loop xs nms q i h) \<and> length h \<le> length (lot_loop xs nms q i h)"
proof (induction "length xs - i" arbitrary: i q h rule: less_induct)
  case less
  show ?case
  proof (cases q)
    case Nil
    with less.prems show ?thesis by (subst (1 2) lot_loop.simps) simp
  next
    case (Cons current q')
    show ?thesis
    proof (cases "i < length xs")
      case False
      with Cons less.prems show ?thesis by (subst (1 2) lot_loop.simps) simp
    next
      case True
      from less.prems Cons have cur: "current < length h" and q': "\<forall>a \<in> set q'. a < length h"
        by simp_all
      define q1 where "q1 = (if xs ! i \<notin> nms then q' @ [length h] else q')"
      define h1 where "h1 = (if xs ! i \<notin> nms then set_left (h @ [new_cell (xs ! i)]) current (length h) else h)"
      define q2 where
        "q2 = (if Suc i < length xs \<and> xs ! Suc i \<notin> nms then q1 @ [length h1] else q1)"
      define h2 where "h2 = (if Suc i < length xs \<and> xs ! Suc i \<notin> nms
                   then set_right (h1 @ [new_cell (xs ! Suc i)]) current (length h1) else h1)"
      have ok1: "heap_ok h1" and len1: "length h \<le> length h1"
        and qs1: "\<forall>a \<in> set q1. a < length h1"
        using less.prems(1) cur q' by (auto simp: q1_def h1_def heap_ok_set_left)
      from cur len1 have cur1: "current < length h1" by simp
      have ok2: "heap_ok h2" and len2: "length h1 \<le> length h2"
        and qs2: "\<forall>a \<in> set q2. a < length h2"
        using ok1 cur1 qs1 by (auto simp: q2_def h2_def heap_ok_set_right)
      have step: "lot_loop xs nms q i h = lot_loop xs nms q2 (Suc (Suc i)) h2"
        using True Cons by (subst lot_loop.simps) (simp add: q1_def h1_def q2_def h2_def Let_def)
      from True have "length xs - Suc (Suc i) < length xs - i" by simp
      from less.hyps[OF this ok2 qs2] len1 len2 show ?thesis
        unfolding step by simp
    qed
  qed
qed

lemma lot_build_tree_fuel:
  assumes "h = lot_loop level_order null_markers [0] 1 [new_cell (level_order ! 0)]"
    and "length h \<le> n"
  shows "read_tree n h (Some 0) = read_tree (length h) h (Some 0)"
proof -
  have "heap_ok h \<and> length [new_cell (level_order ! 0)] \<le> length h"
    unfolding assms(1) by (rule lot_loop_heap_ok) (simp_all add: heap_ok_new)
  then have "heap_ok h" "0 < length h" by (simp_all add: Suc_le_eq)
  with assms(2) show ?thesis
    by (intro read_tree_fuel) simp_all
qed

section \<open>Metrics of the empty tree\<close>

text \<open>
  Claim C7.  On the empty tree (absent root) each metric returns a value: \<open>max_depth\<close>
  gives 0, the balance check gives true and the diameter gives 0.
\<close>

theorem metrics_empty_tree:
  "max_depth NoneT = 0 \<and> is_balanced_tree NoneT \<and> tree_diameter NoneT = 0"
  by (simp add: is_balanced_tree_def tree_diameter_def)

section \<open>The level-order scenario\<close>

text \<open>
  Claim C1, as the code has it.  From the level-order input \<open>[3,1,2,-1,-1,-1,-1]\<close> with
  null marker \<open>-1\<close> the builder returns the tree with root 3, left child 1 and right child
  2, both leaves; on it \<open>max_depth\<close> is 2, the balance check is true, and
  \<open>tree_diameter\<close> is 3: \<open>diameter_helper\<close> adds one for the node itself, so it counts the
  nodes on the longest path.
\<close>

theorem level_order_scenario:
  "build_from_level_order [3, 1, 2, - 1, - 1, - 1, - 1] (- 1 :: int)
     = TreeNode 3 (TreeNode 1 NoneT NoneT) (TreeNode 2 NoneT NoneT)
   \<and> max_depth (build_from_level_order [3, 1, 2, - 1, - 1, - 1, - 1] (- 1 :: int)) = 2
   \<and> is_balanced_tree (build_from_level_order [3, 1, 2, - 1, - 1, - 1, - 1] (- 1 :: int))
   \<and> tree_diameter (build_from_level_order [3, 1, 2, - 1, - 1, - 1, - 1] (- 1 :: int)) = 3"
proof -
  have b: "build_from_level_order [3, 1, 2, - 1, - 1, - 1, - 1] (- 1 :: int)
     = TreeNode 3 (TreeNode 1 NoneT NoneT) (TreeNode 2 NoneT NoneT)"
    by (simp add: build_from_level_order_def lo_loop.simps set_left_def set_right_def new_cell_def)
  show ?thesis
    unfolding b by (simp add: is_balanced_tree_def tree_diameter_def)
qed

text \<open>Claim C1 as stated, with diameter 2, does not hold.\<close>

theorem level_order_scenario_diameter_counterexample:
  "\<not> (build_from_level_order [3, 1, 2, - 1, - 1, - 1, - 1] (- 1 :: int)
         = TreeNode 3 (TreeNode 1 NoneT NoneT) (TreeNode 2 NoneT NoneT)
       \<and> max_depth (build_from_level_order [3, 1, 2, - 1, - 1, - 1, - 1] (- 1 :: int)) = 2
       \<and> is_balanced_tree (build_from_level_order [3, 1, 2, - 1, - 1, - 1, - 1] (- 1 :: int))
       \<and> tree_diameter (build_from_level_order [3, 1, 2, - 1, - 1, - 1, - 1] (- 1 :: int)) = 2)"
proof -
  have b: "build_from_level_order [3, 1, 2, - 1, - 1, - 1, - 1] (- 1 :: int)
     = TreeNode 3 (TreeNode 1 NoneT NoneT) (TreeNode 2 NoneT NoneT)"
    by (simp add: build_from_level_order_def lo_loop.simps set_left_def set_right_def new_cell_def)
  show ?thesis
    unfolding b by (simp add: is_balanced_tree_def tree_diameter_def)
qed

section \<open>Diameter against depth\<close>

lemma diameter_helper_height: "snd (diameter_helper t) = max_depth t"
  by (induction t) (auto simp: Let_def split: prod.splits)

lemma max_depth_nonneg: "0 \<le> max_depth t"
  by (induction t) (auto simp: Let_def)

lemma max_depth_pos: "t \<noteq> NoneT \<Longrightarrow> 1 \<le> max_depth t"
  using max_depth_nonneg by (cases t) (auto simp: Let_def)

lemma diameter_helper_bound:
  "fst (diameter_helper t) \<le> (if t = NoneT then 0 else 2 * max_depth t - 1)"
proof (induction t)
  case NoneT
  show ?case by simp
next
  case (TreeNode d l r)
  obtain ld lh where l: "diameter_helper l = (ld, lh)" by (cases "diameter_helper l")
  obtain rd rh where r: "diameter_helper r = (rd, rh)" by (cases "diameter_helper r")
  from l diameter_helper_height[of l] have lh: "lh = max_depth l" by simp
  from r diameter_helper_height[of r] have rh: "rh = max_depth r" by simp
  have ld: "ld \<le> 2 * max (max_depth l) (max_depth r)"
    using TreeNode.IH(1) l max_depth_nonneg[of l] max_depth_nonneg[of r] by (auto split: if_splits)
  have rd: "rd \<le> 2 * max (max_depth l) (max_depth r)"
    using TreeNode.IH(2) r max_depth_nonneg[of l] max_depth_nonneg[of r] by (auto split: if_splits)
  have md: "max_depth (TreeNode d l r) = 1 + max (max_depth l) (max_depth r)"
    by (simp add: Let_def max_def)
  have "fst (diameter_helper (TreeNode d l r)) = max (max ld rd) (lh + rh + 1)"
    by (simp add: l r Let_def)
  also have "\<dots> \<le> 2 * max (max_depth l) (max_depth r) + 1"
    using ld rd lh rh by auto
  finally show ?case using md by simp
qed

text \<open>
  Claim C2, as the code has it.  For every tree with at least two nodes the diameter is at
  most \<open>2 * max_depth - 1\<close>, and the diameter of every single-node tree is 1 (the number
  of nodes on the longest path).
\<close>

theorem diameter_bound:
  "(2 \<le> node_count t \<longrightarrow> tree_diameter t \<le> 2 * max_depth t - 1)
   \<and> tree_diameter (TreeNode v NoneT NoneT) = 1"
proof -
  have "tree_diameter t \<le> 2 * max_depth t - 1" if "2 \<le> node_count t"
  proof -
    from that have "t \<noteq> NoneT" by auto
    with diameter_helper_bound[of t] show ?thesis by (simp add: tree_diameter_def)
  qed
  then show ?thesis by (simp add: tree_diameter_def)
qed

theorem diameter_bound_witness:
  "2 \<le> node_count (TreeNode (3::int) (TreeNode 1 NoneT NoneT) (TreeNode 2 NoneT NoneT))
   \<and> tree_diameter (TreeNode (3::int) (TreeNode 1 NoneT NoneT) (TreeNode 2 NoneT NoneT))
        \<le> 2 * max_depth (TreeNode (3::int) (TreeNode 1 NoneT NoneT) (TreeNode 2 NoneT NoneT)) - 1
   \<and> tree_diameter (TreeNode (3::int) NoneT NoneT) = 1"
  using diameter_bound[of "TreeNode (3::int) (TreeNode 1 NoneT NoneT) (TreeNode 2 NoneT NoneT)" "3::int"]
  by simp

text \<open>Claim C2 as stated: the diameter of a single node is not 0.\<close>

theorem single_node_diameter_counterexample:
  "\<not> (tree_diameter (TreeNode (7::int) NoneT NoneT) = 0)"
  by (simp add: tree_diameter_def)

section \<open>The pre-order scenario\<close>

text \<open>
  Claim C8.  Pre-order reconstruction of \<open>[1,2,4,5,3]\<close> yields one fixed shape, the chain
  of left children 1, 2, 4, 5, 3; it has as many nodes as the input has values, and the
  cursor has consumed all five values when the outermost call returns.
\<close>

theorem pre_order_scenario:
  "build_from_pre_order [1, 2, 4, 5, 3 :: int]
     = TreeNode 1 (TreeNode 2 (TreeNode 4 (TreeNode 5 (TreeNode 3 NoneT NoneT) NoneT) NoneT) NoneT) NoneT
   \<and> node_count (build_from_pre_order [1, 2, 4, 5, 3 :: int]) = length [1, 2, 4, 5, 3 :: int]
   \<and> snd (pre_build_recursive [1, 2, 4, 5, 3 :: int] 0) = 5"
  by (simp add: build_from_pre_order_def pre_build_recursive.simps)

section \<open>Full traversals without markers\<close>

lemma node_count_left_chain: "node_count (left_chain xs) = length xs"
  by (induction xs) auto

lemma pre_build_recursive_end:
  "length pre_order \<le> index \<Longrightarrow> pre_build_recursive pre_order index = (NoneT, index)"
  by (subst pre_build_recursive.simps) simp

lemma pre_build_recursive_chain:
  "index \<le> length pre_order \<Longrightarrow>
     pre_build_recursive pre_order index = (left_chain (drop index pre_order), length pre_order)"
proof (induction "length pre_order - index" arbitrary: index)
  case 0
  then have "index = length pre_order" by simp
  then show ?case by (simp add: pre_build_recursive_end)
next
  case (Suc n)
  then have lt: "index < length pre_order" by simp
  from Suc have "n = length pre_order - (index + 1)" by simp
  with Suc.hyps(1)[of "index + 1"] lt
  have first: "pre_build_recursive pre_order (Suc index)
                 = (left_chain (drop (Suc index) pre_order), length pre_order)"
    by simp
  have second: "pre_build_recursive pre_order (length pre_order) = (NoneT, length pre_order)"
    by (simp add: pre_build_recursive_end)
  have "pre_build_recursive pre_order index
          = (TreeNode (pre_order ! index) (left_chain (drop (index + 1) pre_order)) NoneT,
             length pre_order)"
    using lt by (subst pre_build_recursive.simps) (simp add: first second)
  moreover have "drop index pre_order = pre_order ! index # drop (index + 1) pre_order"
    using lt by (simp add: Cons_nth_drop_Suc)
  ultimately show ?case by simp
qed

lemma post_build_recursive_end:
  "index < 0 \<Longrightarrow> post_build_recursive post_order index = (NoneT, index)"
  by (subst post_build_recursive.simps) simp

lemma post_build_recursive_chain:
  "- 1 \<le> index \<Longrightarrow> index < int (length post_order) \<Longrightarrow>
     post_build_recursive post_order index
       = (right_chain (rev (take (nat (index + 1)) post_order)), - 1)"
proof (induction "nat (index + 1)" arbitrary: index)
  case 0
  then have "index = - 1" by simp
  then show ?case by (simp add: post_build_recursive_end)
next
  case (Suc n)
  then have ge: "0 \<le> index" by simp
  from Suc have "n = nat (index - 1 + 1)" by simp
  with Suc.hyps(1)[of "index - 1"] ge Suc.prems
  have first: "post_build_recursive post_order (index - 1)
                 = (right_chain (rev (take (nat index) post_order)), - 1)"
    by simp
  have second: "post_build_recursive post_order (- 1) = (NoneT, - 1)"
    by (simp add: post_build_recursive_end)
  have "post_build_recursive post_order index
          = (TreeNode (post_order ! nat index) NoneT
               (right_chain (rev (take (nat index) post_order))), - 1)"
    using ge by (subst post_build_recursive.simps) (simp add: first second)
  moreover have "take (nat (index + 1)) post_order
                   = take (nat index) post_order @ [post_order ! nat index]"
  proof -
    from ge have "nat (index + 1) = Suc (nat index)" by simp
    moreover from ge Suc.prems have "nat index < length post_order" by simp
    ultimately show ?thesis by (simp add: take_Suc_conv_app_nth)
  qed
  ultimately show ?case by simp
qed

text \<open>
  Claim C9.  For every non-empty list \<open>xs\<close>, \<open>build_from_pre_order xs\<close> is the
  left-degenerate chain of the values of \<open>xs\<close> in order (no node has a right child, and
  there are \<open>length xs\<close> nodes), and \<open>build_from_post_order xs\<close> is the right-degenerate
  chain of the values of \<open>xs\<close> in reverse order.  The depth of Python's call stack is not
  modelled.
\<close>

theorem full_traversals_build_chains:
  "xs \<noteq> [] \<Longrightarrow>
     build_from_pre_order xs = left_chain xs
     \<and> node_count (build_from_pre_order xs) = length xs
     \<and> build_from_post_order xs = right_chain (rev xs)"
proof -
  assume ne: "xs \<noteq> []"
  have pre: "build_from_pre_order xs = left_chain xs"
    using ne pre_build_recursive_chain[of 0 xs] by (simp add: build_from_pre_order_def)
  have "int (length xs) - 1 + 1 = int (length xs)" by simp
  then have post: "build_from_post_order xs = right_chain (rev xs)"
    using ne post_build_recursive_chain[of "int (length xs) - 1" xs]
    by (simp add: build_from_post_order_def)
  from pre post show ?thesis by (simp add: node_count_left_chain)
qed

theorem full_traversals_build_chains_witness:
  "[10, 20, 30 :: int] \<noteq> []
   \<and> build_from_pre_order [10, 20, 30 :: int]
        = TreeNode 10 (TreeNode 20 (TreeNode 30 NoneT NoneT) NoneT) NoneT
   \<and> node_count (build_from_pre_order [10, 20, 30 :: int]) = 3
   \<and> build_from_post_order [10, 20, 30 :: int]
        = TreeNode 30 NoneT (TreeNode 20 NoneT (TreeNode 10 NoneT NoneT))"
  using full_traversals_build_chains[of "[10, 20, 30 :: int]"] by simp

section \<open>Format detection\<close>

text \<open>
  Claim C5.  The detector decides by first match: empty or absent input has no format;
  otherwise a list containing \<open>-1\<close> or \<open>-999\<close> is \<open>level_order\<close>; otherwise a string
  containing a parenthesis is \<open>parenthesis\<close>; every remaining non-empty input is
  \<open>pre_order\<close>.  It never answers \<open>unknown\<close>.
\<close>

theorem detect_input_format_first_match:
  "detect_input_format NoneIn = None
   \<and> detect_input_format (ListIn []) = None
   \<and> detect_input_format (StrIn []) = None
   \<and> (xs \<noteq> [] \<and> ((- 1) \<in> set xs \<or> (- 999) \<in> set xs)
        \<longrightarrow> detect_input_format (ListIn xs) = Some ''level_order'')
   \<and> (s \<noteq> [] \<and> (CHR ''('' \<in> set s \<or> CHR '')'' \<in> set s)
        \<longrightarrow> detect_input_format (StrIn s) = Some ''parenthesis'')
   \<and> (ys \<noteq> [] \<and> (- 1) \<notin> set ys \<and> (- 999) \<notin> set ys
        \<longrightarrow> detect_input_format (ListIn ys) = Some ''pre_order'')
   \<and> (u \<noteq> [] \<and> CHR ''('' \<notin> set u \<and> CHR '')'' \<notin> set u
        \<longrightarrow> detect_input_format (StrIn u) = Some ''pre_order'')
   \<and> detect_input_format x \<noteq> Some ''unknown''"
proof -
  have "detect_input_format x \<noteq> Some ''unknown''"
    by (cases x) auto
  then show ?thesis by auto
qed

theorem detect_input_format_first_match_witness:
  "[3, 1, 2, - 1, - 1, - 1, - 1] \<noteq> ([] :: int list)
   \<and> (- 1) \<in> set [3, 1, 2, - 1, - 1, - 1, - 1 :: int]
   \<and> detect_input_format (ListIn [3, 1, 2, - 1, - 1, - 1, - 1]) = Some ''level_order''
   \<and> ''1(2)(3)'' \<noteq> [] \<and> CHR ''('' \<in> set ''1(2)(3)''
   \<and> detect_input_format (StrIn ''1(2)(3)'') = Some ''parenthesis''
   \<and> [5, 3, 8] \<noteq> ([] :: int list)
   \<and> (- 1) \<notin> set [5, 3, 8 :: int] \<and> (- 999) \<notin> set [5, 3, 8 :: int]
   \<and> detect_input_format (ListIn [5, 3, 8]) = Some ''pre_order''
   \<and> ''538'' \<noteq> [] \<and> CHR ''('' \<notin> set ''538'' \<and> CHR '')'' \<notin> set ''538''
   \<and> detect_input_format (StrIn ''538'') = Some ''pre_order''"
  using detect_input_format_first_match
          [of "[3, 1, 2, - 1, - 1, - 1, - 1]" "''1(2)(3)''" "[5, 3, 8]" "''538''" NoneIn]
  by simp

section \<open>Dispatch on an explicit format name\<close>

text \<open>
  Claim C3, as the code has it.  For every input, \<open>build_from_in_order\<close> raises
  \<open>NotImplementedError\<close> (reconstruction requires additional traversal info).  The
  dispatcher of \<^verbatim>\<open>problemvar.py\<close> called with \<open>in_order\<close> catches that exception, prints
  its message and returns \<^verbatim>\<open>None\<close>; the dispatcher of \<^verbatim>\<open>Problem.py\<close> has no entry
  \<open>in_order\<close> and raises \<open>ValueError\<close> (unsupported construction method).
\<close>

theorem in_order_dispatch:
  "build_from_in_order input
     = Inl (NotImplementedError ''In-order reconstruction requires additional traversal info'')
   \<and> build_tree_var input (Some ''in_order'')
     = (NoneT, [''Tree Construction Error: In-order reconstruction requires additional traversal info''])
   \<and> build_tree input (Some ''in_order'')
     = Inl (ValueError ''Unsupported construction method: in_order'')"
  by (simp add: build_from_in_order_def build_tree_var_def build_tree_def get_method_def
        construction_methods_var_def construction_methods_def format_method_def)

text \<open>
  Claim C3 as stated fails on the dispatcher that knows \<open>in_order\<close>: the call returns
  \<^verbatim>\<open>None\<close>, the value of an empty tree, and nothing reaches the caller.
\<close>

theorem in_order_dispatch_returns:
  "build_tree_var (ListIn [1, 2, 3]) (Some ''in_order'')
     = (NoneT, [''Tree Construction Error: In-order reconstruction requires additional traversal info''])"
  by (simp add: build_from_in_order_def build_tree_var_def get_method_def
        construction_methods_var_def)

text \<open>
  Claim C4, as the code has it.  For every input and every explicit format name outside
  \<open>level_order\<close>, \<open>pre_order\<close>, \<open>post_order\<close>, \<open>parenthesis\<close> and \<open>in_order\<close>, the
  dispatcher of \<^verbatim>\<open>Problem.py\<close> raises \<open>ValueError\<close> with the message
  \<open>Unsupported construction method:\<close> and the name, and returns no tree; the dispatcher of
  \<^verbatim>\<open>problemvar.py\<close> catches that exception, prints it and returns \<^verbatim>\<open>None\<close>.
\<close>

theorem unsupported_method_dispatch:
  "name \<notin> {''level_order'', ''pre_order'', ''post_order'', ''parenthesis'', ''in_order''} \<Longrightarrow>
     build_tree input (Some name) = Inl (ValueError (''Unsupported construction method: '' @ name))
     \<and> build_tree_var input (Some name)
         = (NoneT, [''Tree Construction Error: Unsupported construction method: '' @ name])"
  by (simp add: build_tree_var_def build_tree_def get_method_def
        construction_methods_var_def construction_methods_def format_method_def)

theorem unsupported_method_dispatch_witness:
  "''zigzag'' \<notin> {''level_order'', ''pre_order'', ''post_order'', ''parenthesis'', ''in_order''}
   \<and> build_tree (ListIn [1, 2, 3]) (Some ''zigzag'')
       = Inl (ValueError ''Unsupported construction method: zigzag'')
   \<and> build_tree_var (ListIn [1, 2, 3]) (Some ''zigzag'')
       = (NoneT, [''Tree Construction Error: Unsupported construction method: zigzag''])"
  using unsupported_method_dispatch[of "''zigzag''" "ListIn [1, 2, 3]"] by simp

text \<open>
  Claim C4 as stated fails on the dispatcher of \<^verbatim>\<open>problemvar.py\<close>: the error is printed,
  not raised, and the caller receives \<^verbatim>\<open>None\<close>.
\<close>

theorem unsupported_method_swallowed:
  "build_tree_var (StrIn ''1(2)(3)'') (Some ''zigzag'')
       = (NoneT, [''Tree Construction Error: Unsupported construction method: zigzag''])"
  by (simp add: build_tree_var_def get_method_def construction_methods_var_def format_method_def)

section \<open>Malformed parenthesized text\<close>




lemma scan_value_run:
  "i \<le> length s \<Longrightarrow>
     scan_value s i = i + length (takeWhile (\<lambda>c. isdigit c \<or> c = CHR ''-'') (drop i s))"
proof (induction s i rule: scan_value.induct)
  case (1 s i)
  show ?case
  proof (cases "i < length s \<and> (isdigit (s ! i) \<or> s ! i = CHR ''-'')")
    case True
    then have step: "scan_value s i = scan_value s (i + 1)"
      by (subst scan_value.simps) auto
    from True have d: "drop i s = s ! i # drop (i + 1) s"
      by (simp add: Cons_nth_drop_Suc)
    from True have "i + 1 \<le> length s" by simp
    from 1(1)[OF True this] step d True show ?thesis by auto
  next
    case False
    then have stop: "scan_value s i = i"
      by (subst scan_value.simps) auto
    have "takeWhile (\<lambda>c. isdigit c \<or> c = CHR ''-'') (drop i s) = []"
    proof (cases "i < length s")
      case True
      then have "drop i s = s ! i # drop (i + 1) s"
        by (simp add: Cons_nth_drop_Suc)
      with False True show ?thesis by auto
    next
      case False
      then show ?thesis by simp
    qed
    with stop show ?thesis by simp
  qed
qed

lemma value_token_run:
  "i \<le> length s \<Longrightarrow>
     value_token s i = takeWhile (\<lambda>c. isdigit c \<or> c = CHR ''-'') (drop i s)"
  by (simp add: value_token_def slice_def scan_value_run takeWhile_eq_take[symmetric])

lemma value_token_chars:
  assumes "c \<in> set (value_token s i)"
  shows "isdigit c \<or> c = CHR ''-''"
proof (cases "i \<le> length s")
  case True
  with assms have "c \<in> set (takeWhile (\<lambda>c. isdigit c \<or> c = CHR ''-'') (drop i s))"
    by (simp add: value_token_run)
  then show ?thesis by (rule set_takeWhileD[THEN conjunct2])
next
  case False
  with assms show ?thesis by (simp add: value_token_def slice_def)
qed

lemma digit_run_all:
  "int_literal tok \<Longrightarrow> digit_run tok = unsigned tok"
  by (simp add: int_literal_def digit_run_def list_all_iff)


lemma py_int_accepts:
  "int_literal tok \<Longrightarrow> length (digit_run tok) \<le> int_max_str_digits \<Longrightarrow> \<exists>v. py_int tok = Inr v"
  by (simp add: py_int_def Let_def digit_run_all int_literal_def)


lemmas eval_simps = parse_tree.simps scan_value.simps py_int_def slice_def isdigit_def
  isdecimal_def digit_value_def value_token_def after_subtree_def unsigned_def digit_run_def
  invalid_literal_def int_literal_def int_max_str_digits_def

lemma superscript_digit_rejected:
  "build_from_parenthesis (''1'' @ [CHR 0xB2]) =
     Inl (ValueError (''invalid literal for int() with base 10: ''
                        @ [CHR 0x27] @ ''1'' @ [CHR 0xB2] @ [CHR 0x27]))"
  by (simp add: build_from_parenthesis_def eval_simps)




section \<open>The two level-order builders\<close>

lemma level_order_loops_agree:
  assumes "\<And>x. x \<in> set xs \<Longrightarrow> (x \<in> nms \<longleftrightarrow> x = nm)"
  shows "lot_loop xs nms q i h = lo_loop xs nm q i h"
proof (induction "length xs - i" arbitrary: i q h rule: less_induct)
  case less
  show ?case
  proof (cases q)
    case Nil
    then show ?thesis
      by (subst lot_loop.simps, subst lo_loop.simps) simp
  next
    case (Cons current q')
    show ?thesis
    proof (cases "i < length xs")
      case False
      with Cons show ?thesis
        by (subst lot_loop.simps, subst lo_loop.simps) simp
    next
      case True
      have e0: "xs ! i \<notin> nms \<longleftrightarrow> xs ! i \<noteq> nm"
        using assms[of "xs ! i"] True by simp
      have e1: "Suc i < length xs \<Longrightarrow> (xs ! Suc i \<notin> nms \<longleftrightarrow> xs ! Suc i \<noteq> nm)"
        using assms[of "xs ! Suc i"] by simp
      have ih: "lot_loop xs nms q'' (Suc (Suc i)) h'' = lo_loop xs nm q'' (Suc (Suc i)) h''"
        for q'' h''
        using less[of "Suc (Suc i)" q'' h''] True by simp
      show ?thesis
        using True Cons e0 e1
        by (subst lot_loop.simps, subst lo_loop.simps) (auto simp: Let_def ih)
    qed
  qed
qed

lemma pop_leading_keeps:
  "xs = y # ys \<Longrightarrow> y \<notin> nms \<Longrightarrow> pop_leading nms xs = xs"
  by simp

lemmas level_order_eval = lot_build_tree_def build_from_level_order_def lo_loop.simps
  lot_loop.simps set_left_def set_right_def new_cell_def default_null_markers_def

text \<open>
  Claim C10, as the code has it.  The builder of \<^verbatim>\<open>firtst1.py\<close> with its default null
  markers also takes \<open>-999\<close> and \<^verbatim>\<open>None\<close> for absent children, and pops leading null
  markers off the caller's list when a value follows them.  For every list that contains
  neither \<open>-999\<close> nor \<^verbatim>\<open>None\<close> and that does not begin with \<open>-1\<close>, or consists of
  \<open>-1\<close> only, the two builders return the same tree and the list is left as it was.
\<close>

theorem level_order_builders_agree:
  assumes "IntV (- 999) \<notin> set xs" and "NoneV \<notin> set xs"
    and "take 1 xs \<noteq> [IntV (- 1)] \<or> set xs \<subseteq> {IntV (- 1)}"
  shows "lot_build_tree xs None = (build_from_level_order xs (IntV (- 1)), xs)"
proof -
  have mem: "x \<in> default_null_markers \<longleftrightarrow> x = IntV (- 1)" if "x \<in> set xs" for x
    using that assms(1,2) by (auto simp: default_null_markers_def)
  show ?thesis
  proof (cases "set xs \<subseteq> {IntV (- 1)}")
    case True
    then have all: "list_all (\<lambda>x. x \<in> default_null_markers) xs"
      by (auto simp: list_all_iff default_null_markers_def)
    from True have "xs = [] \<or> xs ! 0 = IntV (- 1)"
      by (cases xs) auto
    with all show ?thesis
      by (simp add: lot_build_tree_def build_from_level_order_def)
  next
    case False
    with assms(3) have t: "take 1 xs \<noteq> [IntV (- 1)]" by simp
    from False obtain y ys where xs: "xs = y # ys" by (cases xs) auto
    with t have y: "y \<noteq> IntV (- 1)" by simp
    with mem[of y] xs have ynm: "y \<notin> default_null_markers" by simp
    with xs have nall: "\<not> list_all (\<lambda>x. x \<in> default_null_markers) xs" by simp
    have pop: "pop_leading default_null_markers xs = xs"
      using xs ynm by simp
    have loops: "lot_loop xs default_null_markers [0] 1 [new_cell (xs ! 0)]
                   = lo_loop xs (IntV (- 1)) [0] 1 [new_cell (xs ! 0)]"
      using mem by (rule level_order_loops_agree)
    have "xs \<noteq> []" "xs ! 0 \<noteq> IntV (- 1)" using xs y by simp_all
    with nall pop loops show ?thesis
      by (simp add: lot_build_tree_def build_from_level_order_def Let_def)
  qed
qed

theorem level_order_builders_agree_witness:
  "IntV (- 999) \<notin> set [IntV 3, IntV (- 1), IntV 1]
   \<and> NoneV \<notin> set [IntV 3, IntV (- 1), IntV 1]
   \<and> take 1 [IntV 3, IntV (- 1), IntV 1] \<noteq> [IntV (- 1)]
   \<and> lot_build_tree [IntV 3, IntV (- 1), IntV 1] None
       = (TreeNode (IntV 3) NoneT (TreeNode (IntV 1) NoneT NoneT), [IntV 3, IntV (- 1), IntV 1])
   \<and> build_from_level_order [IntV 3, IntV (- 1), IntV 1] (IntV (- 1))
       = TreeNode (IntV 3) NoneT (TreeNode (IntV 1) NoneT NoneT)"
proof -
  have b: "build_from_level_order [IntV 3, IntV (- 1), IntV 1] (IntV (- 1))
       = TreeNode (IntV 3) NoneT (TreeNode (IntV 1) NoneT NoneT)"
    by (simp add: level_order_eval)
  from level_order_builders_agree[of "[IntV 3, IntV (- 1), IntV 1]"] b
  show ?thesis by simp
qed

text \<open>
  Claim C10 as stated fails on \<open>[-1, 5]\<close>: \<^verbatim>\<open>Problem.py\<close> returns the empty tree, while
  \<^verbatim>\<open>firtst1.py\<close> drops the leading \<open>-1\<close> from the caller's list and returns the node 5.
\<close>

theorem level_order_builders_differ:
  "\<not> (fst (lot_build_tree [IntV (- 1), IntV 5] None)
         = build_from_level_order [IntV (- 1), IntV 5] (IntV (- 1))
       \<and> snd (lot_build_tree [IntV (- 1), IntV 5] None) = [IntV (- 1), IntV 5])"
  by (simp add: level_order_eval)

end
